theory Spec2Isabelle
  imports Main "HOL-Library.AList"
begin

section \<open>Data model of the knowledge cache\<close>

text \<open>
  Modelled from the spec: the classes \<^verbatim>\<open>FileMetadata\<close>, \<^verbatim>\<open>CacheRecord\<close> and
  \<^verbatim>\<open>CacheState\<close> of \<^verbatim>\<open>knowledge_cache/models.py\<close>, which the provider
  \<^verbatim>\<open>FileFolderProvider\<close> of \<^verbatim>\<open>knowledge_cache/providers/file_folder.py\<close> imports, are
  not among the sources. Their fields are those of the specification's data model, which
  are also the keyword arguments of the provider's two constructor calls; a
  \<^verbatim>\<open>SourceType\<close> is a string tag and sizes and times are Python integers. An object of
  either class is true in a condition, so \<^verbatim>\<open>if not file_meta\<close> tests for \<^verbatim>\<open>None\<close>.
  The field \<^verbatim>\<open>file\<close> is written \<open>file'\<close>.
\<close>

record file_metadata =
  rel_path :: string
  size_bytes :: int
  mtime_ns :: int

record cache_record =
  source_type :: string
  content_hash :: string
  summary_text :: string
  last_indexed_at :: string
  summary_pending :: bool
  file' :: "file_metadata option"

text \<open>
  \<^verbatim>\<open>CacheState.sources\<close> is a dictionary from \<^verbatim>\<open>source_id\<close> to the record.
  Every key owns its record: \<^verbatim>\<open>init_record\<close> builds a fresh object per call,
  so a record is a value of the map and no two keys share one.
\<close>

type_synonym cache_state = "string \<rightharpoonup> cache_record"

section \<open>The file system as the provider sees it\<close>

text \<open>
  A \<^verbatim>\<open>Path\<close> is its list of components. \<^verbatim>\<open>Path.stat()\<close> returns the size and
  the modification time or raises \<^verbatim>\<open>OSError\<close> (here \<open>None\<close>);
  \<^verbatim>\<open>Path.read_text(encoding="utf-8")\<close> returns the text, raises
  \<^verbatim>\<open>UnicodeDecodeError\<close> or raises \<^verbatim>\<open>OSError\<close>. The two are independent
  functions of the path, so a file may be stat-able and unreadable.
\<close>

type_synonym path = "string list"

record stat_result =
  st_size :: int
  st_mtime_ns :: int

datatype read_result = ReadOk string | UnicodeDecodeError | OSError

record fsio =
  fs_stat :: "path \<Rightarrow> stat_result option"
  fs_read :: "path \<Rightarrow> read_result"

text \<open>
  The calls a provider operation makes on its collaborators, in order, each tagged
  with the \<^verbatim>\<open>source_id\<close> it is made for: this is the call-count instrumentation
  of \<^verbatim>\<open>stat\<close>, \<^verbatim>\<open>read_text\<close> and \<^verbatim>\<open>hash_text\<close>.
\<close>

datatype io_event = StatCall string | ReadTextCall string | HashTextCall string

section \<open>\<^verbatim>\<open>init_record\<close> and \<^verbatim>\<open>load_text\<close>\<close>

text \<open>
  \<^verbatim>\<open>self._file_sources\<close> is a dictionary from \<^verbatim>\<open>source_id\<close> to the path,
  kept as an association list in insertion order (the order \<^verbatim>\<open>items()\<close>
  iterates in); \<^verbatim>\<open>.get\<close> is \<^const>\<open>map_of\<close>, and since a \<^verbatim>\<open>Path\<close> is always
  true, \<^verbatim>\<open>if not file_path\<close> is the test for a missing key. The functions
  \<^verbatim>\<open>hash_text\<close> and \<^verbatim>\<open>format_rfc3339\<close> of \<^verbatim>\<open>knowledge_cache/utils.py\<close>, not among
  the sources either, are the parameters \<open>hash_text\<close> and \<open>format_rfc3339\<close>.
\<close>

type_synonym file_sources = "(string \<times> path) list"

definition init_record ::
  "('time \<Rightarrow> string) \<Rightarrow> (string \<Rightarrow> string) \<Rightarrow> file_sources \<Rightarrow> fsio \<Rightarrow> string \<Rightarrow> 'time
     \<Rightarrow> cache_record option" where
  "init_record format_rfc3339 hash_text file_sources fs source_id now =
     (case map_of file_sources source_id of
        None \<Rightarrow> None
      | Some file_path \<Rightarrow>
          (case fs_stat fs file_path of
             None \<Rightarrow> None
           | Some stat \<Rightarrow>
               (case fs_read fs file_path of
                  UnicodeDecodeError \<Rightarrow> None
                | OSError \<Rightarrow> None
                | ReadOk text \<Rightarrow>
                    Some \<lparr> source_type = ''file'',
                           content_hash = hash_text text,
                           summary_text = '''',
                           last_indexed_at = format_rfc3339 now,
                           summary_pending = True,
                           file' = Some \<lparr> rel_path = source_id,
                                         size_bytes = st_size stat,
                                         mtime_ns = st_mtime_ns stat \<rparr> \<rparr>)))"

definition load_text :: "file_sources \<Rightarrow> fsio \<Rightarrow> string \<Rightarrow> string option" where
  "load_text file_sources fs source_id =
     (case map_of file_sources source_id of
        None \<Rightarrow> None
      | Some file_path \<Rightarrow>
          (case fs_read fs file_path of
             ReadOk text \<Rightarrow> Some text
           | UnicodeDecodeError \<Rightarrow> None
           | OSError \<Rightarrow> None))"

section \<open>\<^verbatim>\<open>refresh\<close>\<close>

text \<open>
  The state of the loop of \<^verbatim>\<open>refresh\<close>: the cache it mutates in place, the local
  \<^verbatim>\<open>changed\<close>, and the calls made so far.
\<close>

record refresh_state =
  rs_cache :: cache_state
  rs_changed :: bool
  rs_trace :: "io_event list"

text \<open>
  The fingerprint the comparison uses: the stored one, or, when the record has
  none, one built from the stat just taken.
\<close>

definition comparison_meta :: "string \<Rightarrow> cache_record \<Rightarrow> stat_result \<Rightarrow> file_metadata" where
  "comparison_meta rp record stat =
     (case file' record of
        None \<Rightarrow> \<lparr> rel_path = rp, size_bytes = st_size stat, mtime_ns = st_mtime_ns stat \<rparr>
      | Some file_meta \<Rightarrow> file_meta)"

definition log_call :: "io_event \<Rightarrow> refresh_state \<Rightarrow> refresh_state" where
  "log_call ev s = s \<lparr> rs_trace := rs_trace s @ [ev] \<rparr>"

text \<open>One iteration of the loop, for the item \<open>(rp, file_path)\<close>; every
  \<^verbatim>\<open>continue\<close> returns the state as it is.\<close>

definition refresh_entry ::
  "(string \<Rightarrow> string) \<Rightarrow> fsio \<Rightarrow> string \<times> path \<Rightarrow> refresh_state \<Rightarrow> refresh_state" where
  "refresh_entry hash_text fs item s =
     (let rp = fst item; file_path = snd item in
      case rs_cache s rp of
        None \<Rightarrow> s
      | Some record \<Rightarrow>
          if source_type record \<noteq> ''file'' then s
          else
            (let s1 = log_call (StatCall rp) s in
             case fs_stat fs file_path of
               None \<Rightarrow> s1
             | Some stat \<Rightarrow>
                 (let file_meta = comparison_meta rp record stat in
                  if size_bytes file_meta = st_size stat \<and> mtime_ns file_meta = st_mtime_ns stat
                  then s1
                  else
                    (let s2 = log_call (ReadTextCall rp) s1 in
                     case fs_read fs file_path of
                       UnicodeDecodeError \<Rightarrow> s2
                     | OSError \<Rightarrow> s2
                     | ReadOk text \<Rightarrow>
                         (let s3 = log_call (HashTextCall rp) s2;
                              new_hash = hash_text text;
                              record1 = record \<lparr> file' :=
                                Some \<lparr> rel_path = rp, size_bytes = st_size stat,
                                       mtime_ns = st_mtime_ns stat \<rparr> \<rparr>;
                              record2 =
                                (if new_hash \<noteq> content_hash record1 \<or> summary_pending record1
                                 then record1 \<lparr> content_hash := new_hash, summary_pending := True \<rparr>
                                 else record1)
                          in s3 \<lparr> rs_cache := (rs_cache s3)(rp \<mapsto> record2),
                                  rs_changed := True \<rparr>)))))"

fun refresh_loop ::
  "(string \<Rightarrow> string) \<Rightarrow> fsio \<Rightarrow> file_sources \<Rightarrow> refresh_state \<Rightarrow> refresh_state" where
  "refresh_loop hash_text fs [] s = s"
| "refresh_loop hash_text fs (item # items) s =
     refresh_loop hash_text fs items (refresh_entry hash_text fs item s)"

text \<open>\<^verbatim>\<open>refresh\<close> starts with \<^verbatim>\<open>changed = False\<close>; its parameter \<^verbatim>\<open>now\<close> is
  not used by the body.\<close>

definition refresh ::
  "(string \<Rightarrow> string) \<Rightarrow> file_sources \<Rightarrow> fsio \<Rightarrow> cache_state \<Rightarrow> 'time \<Rightarrow> refresh_state" where
  "refresh hash_text file_sources fs cache now =
     refresh_loop hash_text fs file_sources
       \<lparr> rs_cache = cache, rs_changed = False, rs_trace = [] \<rparr>"

text \<open>The source a logged call is made for.\<close>

fun event_source :: "io_event \<Rightarrow> string" where
  "event_source (StatCall k) = k"
| "event_source (ReadTextCall k) = k"
| "event_source (HashTextCall k) = k"

section \<open>\<^verbatim>\<open>discover\<close>\<close>

text \<open>
  The directory tree at \<^verbatim>\<open>sources_dir\<close>, as the process sees it: a regular file, a
  directory with its entries in the order the operating system lists them, a node that
  is neither (a socket, a device), a symbolic link with the node it points to (no node
  when the link dangles or loops), or an entry whose \<^verbatim>\<open>stat\<close> fails with a permission
  error. A directory the process may not list is a directory without entries, since
  \<^verbatim>\<open>rglob\<close> passes over the error of listing it.
\<close>

datatype fnode =
    RegularFile
  | Directory "(string \<times> fnode) list"
  | SpecialFile
  | Symlink "fnode option"
  | Inaccessible

datatype os_error = PermissionError

text \<open>What \<^verbatim>\<open>stat\<close> reaches from a node, following symbolic links.\<close>

fun resolve :: "fnode \<Rightarrow> fnode option" where
  "resolve (Symlink None) = None"
| "resolve (Symlink (Some target)) = resolve target"
| "resolve RegularFile = Some RegularFile"
| "resolve (Directory entries) = Some (Directory entries)"
| "resolve SpecialFile = Some SpecialFile"
| "resolve Inaccessible = Some Inaccessible"

text \<open>
  \<^verbatim>\<open>Path.exists()\<close> and \<^verbatim>\<open>Path.is_file()\<close> follow symbolic links, answer false when
  nothing is there, and let a permission error of \<^verbatim>\<open>stat\<close> through. The root is
  \<open>None\<close> when there is no entry at \<^verbatim>\<open>sources_dir\<close>.
\<close>

definition path_exists :: "fnode option \<Rightarrow> os_error + bool" where
  "path_exists root =
     (case root of
        None \<Rightarrow> Inr False
      | Some n \<Rightarrow>
          (case resolve n of
             None \<Rightarrow> Inr False
           | Some Inaccessible \<Rightarrow> Inl PermissionError
           | Some RegularFile \<Rightarrow> Inr True
           | Some (Directory entries) \<Rightarrow> Inr True
           | Some SpecialFile \<Rightarrow> Inr True
           | Some (Symlink target) \<Rightarrow> Inr True))"

definition is_file :: "fnode \<Rightarrow> os_error + bool" where
  "is_file n =
     (case resolve n of
        None \<Rightarrow> Inr False
      | Some Inaccessible \<Rightarrow> Inl PermissionError
      | Some RegularFile \<Rightarrow> Inr True
      | Some (Directory entries) \<Rightarrow> Inr False
      | Some SpecialFile \<Rightarrow> Inr False
      | Some (Symlink target) \<Rightarrow> Inr False)"

text \<open>
  \<^verbatim>\<open>rglob("*")\<close> on a directory yields every path below it, at any depth, directories,
  links and dot-names included, and never the directory itself; it lists a symbolic link
  and does not descend into it. A path is kept relative to the root, as its components,
  together with the node it names. The order of the walk is the operating system's, and
  no property below depends on it.
\<close>

fun rglob :: "fnode \<Rightarrow> (string list \<times> fnode) list" where
  "rglob (Directory entries) =
     concat (map (\<lambda>(name, child).
                    ([name], child) # map (\<lambda>(rel, n). (name # rel, n)) (rglob child))
                 entries)"
| "rglob RegularFile = []"
| "rglob SpecialFile = []"
| "rglob (Symlink target) = []"
| "rglob Inaccessible = []"

text \<open>\<^verbatim>\<open>sources_dir.rglob("*")\<close> starts from what \<^verbatim>\<open>sources_dir\<close> resolves to.\<close>

definition rglob_root :: "fnode option \<Rightarrow> (string list \<times> fnode) list" where
  "rglob_root root =
     (case root of
        None \<Rightarrow> []
      | Some n \<Rightarrow> (case resolve n of None \<Rightarrow> [] | Some m \<Rightarrow> rglob m))"

text \<open>\<^verbatim>\<open>name.startswith(".")\<close> and \<^verbatim>\<open>relative_to(sources_dir).as_posix()\<close>.\<close>

definition startswith_dot :: "string \<Rightarrow> bool" where
  "startswith_dot name = (take 1 name = ''.'')"

fun as_posix :: "string list \<Rightarrow> string" where
  "as_posix [] = ''.''"
| "as_posix [c] = c"
| "as_posix (c # d # cs) = c @ ''/'' @ as_posix (d # cs)"

text \<open>
  One iteration of the loop of \<^verbatim>\<open>discover\<close> over the two dictionaries
  \<^verbatim>\<open>sources\<close> and \<^verbatim>\<open>self._file_sources\<close>; \<^verbatim>\<open>d[k] = v\<close> is
  \<^const>\<open>AList.update\<close>, which replaces the value of a key already there and
  appends a new key. \<^verbatim>\<open>file_path\<close> is \<^verbatim>\<open>sources_dir\<close> followed by the relative
  components, so \<^verbatim>\<open>relative_to\<close> does not raise. An error of \<^verbatim>\<open>is_file\<close> is not
  caught.
\<close>

definition discover_step ::
  "path \<Rightarrow> (string \<times> string) list \<times> file_sources \<Rightarrow> string list \<times> fnode
     \<Rightarrow> os_error + (string \<times> string) list \<times> file_sources" where
  "discover_step sources_dir acc found =
     (let rel = fst found; node = snd found in
      case is_file node of
        Inl e \<Rightarrow> Inl e
      | Inr regular \<Rightarrow>
          if \<not> regular then Inr acc
          else if startswith_dot (last rel) then Inr acc
          else
            (let rp = as_posix rel in
             Inr (AList.update rp ''file'' (fst acc),
                  AList.update rp (sources_dir @ rel) (snd acc))))"

text \<open>
  The loop ends with \<^verbatim>\<open>sources\<close> returned, or with the error that left it; in both
  cases \<^verbatim>\<open>self._file_sources\<close> is what the iterations before have stored.
\<close>

fun discover_loop ::
  "path \<Rightarrow> (string \<times> string) list \<times> file_sources \<Rightarrow> (string list \<times> fnode) list
     \<Rightarrow> (os_error + (string \<times> string) list) \<times> file_sources" where
  "discover_loop sources_dir acc [] = (Inr (fst acc), snd acc)"
| "discover_loop sources_dir acc (found # rest) =
     (case discover_step sources_dir acc found of
        Inl e \<Rightarrow> (Inl e, snd acc)
      | Inr acc' \<Rightarrow> discover_loop sources_dir acc' rest)"

text \<open>
  \<^verbatim>\<open>discover\<close> empties \<^verbatim>\<open>self._file_sources\<close>, returns the empty \<^verbatim>\<open>sources\<close> when
  \<^verbatim>\<open>sources_dir.exists()\<close> is false, and walks the tree otherwise. The result is what
  it returns or raises, paired with the \<^verbatim>\<open>self._file_sources\<close> it leaves.
\<close>

definition discover ::
  "path \<Rightarrow> fnode option \<Rightarrow> (os_error + (string \<times> string) list) \<times> file_sources" where
  "discover sources_dir root =
     (case path_exists root of
        Inl e \<Rightarrow> (Inl e, [])
      | Inr present \<Rightarrow>
          if \<not> present then (Inr [], [])
          else discover_loop sources_dir ([], []) (rglob_root root))"







section \<open>Sequences of provider calls\<close>

text \<open>
  The provider's four operations as calls on the pair of the provider's index and the
  cache, each with the file system it meets; what a call returns (or, for
  \<^verbatim>\<open>discover\<close>, raises) is appended to \<open>pw_returned\<close>. Only \<^verbatim>\<open>discover\<close> assigns \<^verbatim>\<open>self._file_sources\<close> and only
  \<^verbatim>\<open>refresh\<close> is handed the cache.
\<close>

datatype 'time provider_call =
    Discover "fnode option"
  | InitRecord fsio string 'time
  | Refresh fsio 'time
  | LoadText fsio string

datatype call_result =
    Discovered "os_error + (string \<times> string) list"
  | Inited "cache_record option"
  | Refreshed bool
  | Loaded "string option"

record provider_world =
  pw_file_sources :: file_sources
  pw_cache :: cache_state
  pw_returned :: "call_result list"

fun provider_step ::
  "('time \<Rightarrow> string) \<Rightarrow> (string \<Rightarrow> string) \<Rightarrow> path \<Rightarrow> provider_world \<Rightarrow> 'time provider_call
     \<Rightarrow> provider_world" where
  "provider_step format_rfc3339 hash_text sources_dir w (Discover root) =
     (let found = discover sources_dir root in
      w \<lparr> pw_file_sources := snd found,
          pw_returned := pw_returned w @ [Discovered (fst found)] \<rparr>)"
| "provider_step format_rfc3339 hash_text sources_dir w (InitRecord fs source_id now) =
     w \<lparr> pw_returned := pw_returned w @
           [Inited (init_record format_rfc3339 hash_text (pw_file_sources w) fs source_id now)] \<rparr>"
| "provider_step format_rfc3339 hash_text sources_dir w (Refresh fs now) =
     (let s = refresh hash_text (pw_file_sources w) fs (pw_cache w) now in
      w \<lparr> pw_cache := rs_cache s,
          pw_returned := pw_returned w @ [Refreshed (rs_changed s)] \<rparr>)"
| "provider_step format_rfc3339 hash_text sources_dir w (LoadText fs source_id) =
     w \<lparr> pw_returned := pw_returned w @
           [Loaded (load_text (pw_file_sources w) fs source_id)] \<rparr>"

definition run_calls ::
  "('time \<Rightarrow> string) \<Rightarrow> (string \<Rightarrow> string) \<Rightarrow> path \<Rightarrow> provider_world \<Rightarrow> 'time provider_call list
     \<Rightarrow> provider_world" where
  "run_calls format_rfc3339 hash_text sources_dir w calls =
     foldl (provider_step format_rfc3339 hash_text sources_dir) w calls"

section \<open>What \<^verbatim>\<open>refresh\<close> keeps of a record\<close>

text \<open>
  The relation between a record before and after any number of iterations of the
  loop: the type, the summary and the timestamp stay, a record of another type
  stays whole, a pending record stays pending, and a new hash makes it pending.
\<close>

definition record_kept :: "cache_record \<Rightarrow> cache_record \<Rightarrow> bool" where
  "record_kept r r' \<longleftrightarrow>
     source_type r' = source_type r \<and> summary_text r' = summary_text r
     \<and> last_indexed_at r' = last_indexed_at r
     \<and> (source_type r \<noteq> ''file'' \<longrightarrow> r' = r)
     \<and> (summary_pending r \<longrightarrow> summary_pending r')
     \<and> (content_hash r' \<noteq> content_hash r \<longrightarrow> summary_pending r')"

definition cache_kept :: "cache_state \<Rightarrow> cache_state \<Rightarrow> bool" where
  "cache_kept c c' \<longleftrightarrow> (\<forall>k. rel_option record_kept (c k) (c' k))"

section \<open>A source tree for the examples\<close>

text \<open>
  The scenario of the specification: \<^verbatim>\<open>a.txt\<close> and \<^verbatim>\<open>b.txt\<close> under the root
  \<^verbatim>\<open>kb\<close>, cached when they held \<^verbatim>\<open>hello\<close> and \<^verbatim>\<open>world\<close>; \<^verbatim>\<open>a.txt\<close> has
  since been edited to \<^verbatim>\<open>hello!\<close>. \<open>ex_hash\<close> stands for \<^verbatim>\<open>hash_text\<close> and the
  clock value is given by its formatted text.
\<close>

definition ex_hash :: "string \<Rightarrow> string" where
  "ex_hash text = ''H('' @ text @ '')''"

definition ex_format :: "string \<Rightarrow> string" where
  "ex_format now = now"

definition ex_sources :: file_sources where
  "ex_sources = [(''a.txt'', [''kb'', ''a.txt'']), (''b.txt'', [''kb'', ''b.txt''])]"

definition ex_record :: "string \<Rightarrow> string \<Rightarrow> int \<Rightarrow> int \<Rightarrow> cache_record" where
  "ex_record rp text sz mtime =
     \<lparr> source_type = ''file'', content_hash = ex_hash text, summary_text = ''summary'',
       last_indexed_at = ''2026-01-01T00:00:00Z'', summary_pending = False,
       file' = Some \<lparr> rel_path = rp, size_bytes = sz, mtime_ns = mtime \<rparr> \<rparr>"

definition ex_cache :: cache_state where
  "ex_cache = [''a.txt'' \<mapsto> ex_record ''a.txt'' ''hello'' 5 100,
               ''b.txt'' \<mapsto> ex_record ''b.txt'' ''world'' 5 100]"

definition ex_fs :: fsio where
  "ex_fs =
     \<lparr> fs_stat = (\<lambda>p. if p = [''kb'', ''a.txt''] then Some \<lparr> st_size = 6, st_mtime_ns = 200 \<rparr>
                      else if p = [''kb'', ''b.txt''] then Some \<lparr> st_size = 5, st_mtime_ns = 100 \<rparr>
                      else None),
       fs_read = (\<lambda>p. if p = [''kb'', ''a.txt''] then ReadOk ''hello!''
                      else if p = [''kb'', ''b.txt''] then ReadOk ''world''
                      else OSError) \<rparr>"

text \<open>The same tree when \<^verbatim>\<open>a.txt\<close> has been overwritten with bytes that are not
  UTF-8, when it can no longer be read, and when it can no longer be stat-ed.\<close>

definition ex_fs_undecodable :: fsio where
  "ex_fs_undecodable =
     ex_fs \<lparr> fs_read := (\<lambda>p. if p = [''kb'', ''a.txt''] then UnicodeDecodeError
                             else fs_read ex_fs p) \<rparr>"

definition ex_fs_unreadable :: fsio where
  "ex_fs_unreadable =
     ex_fs \<lparr> fs_read := (\<lambda>p. if p = [''kb'', ''a.txt''] then OSError else fs_read ex_fs p) \<rparr>"

definition ex_fs_no_stat :: fsio where
  "ex_fs_no_stat =
     ex_fs \<lparr> fs_stat := (\<lambda>p. if p = [''kb'', ''a.txt''] then None else fs_stat ex_fs p) \<rparr>"

text \<open>\<^verbatim>\<open>b.txt\<close> rewritten in place with the same size and modification time, and a
  cache whose record of \<^verbatim>\<open>a.txt\<close> has no file metadata.\<close>

definition ex_fs_blind_spot :: fsio where
  "ex_fs_blind_spot =
     ex_fs \<lparr> fs_read := (\<lambda>p. if p = [''kb'', ''b.txt''] then ReadOk ''w0rld''
                             else fs_read ex_fs p) \<rparr>"

definition ex_cache_no_meta :: cache_state where
  "ex_cache_no_meta = ex_cache(''a.txt'' \<mapsto> (ex_record ''a.txt'' ''hello'' 5 100) \<lparr> file' := None \<rparr>)"

text \<open>A cache in which \<^verbatim>\<open>b.txt\<close> belongs to another provider, one in which it is
  pending, and a run of provider calls on the tree below.\<close>

definition ex_cache_mixed :: cache_state where
  "ex_cache_mixed =
     ex_cache(''b.txt'' \<mapsto> (ex_record ''b.txt'' ''world'' 4 1) \<lparr> source_type := ''web'' \<rparr>)"

definition ex_cache_pending :: cache_state where
  "ex_cache_pending =
     ex_cache(''b.txt'' \<mapsto> (ex_record ''b.txt'' ''world'' 5 100) \<lparr> summary_pending := True \<rparr>)"

definition ex_tree :: fnode where
  "ex_tree =
     Directory [(''a.txt'', RegularFile), (''.hidden'', RegularFile),
                (''docs'', Directory [(''b.txt'', RegularFile), (''sock'', SpecialFile)])]"



definition ex_world :: provider_world where
  "ex_world = \<lparr> pw_file_sources = [], pw_cache = ex_cache, pw_returned = [] \<rparr>"

definition ex_calls :: "string provider_call list" where
  "ex_calls =
     [Discover (Some ex_tree), InitRecord ex_fs ''a.txt'' ''2026-01-02T00:00:00Z'',
      Refresh ex_fs ''2026-01-02T00:00:00Z'', LoadText ex_fs ''a.txt'',
      Refresh ex_fs_undecodable ''2026-01-03T00:00:00Z'']"

section \<open>The loop of \<^verbatim>\<open>refresh\<close>, item by item\<close>

lemmas ex_defs = ex_sources_def ex_cache_def ex_record_def ex_hash_def ex_fs_def
  ex_fs_undecodable_def ex_fs_unreadable_def ex_fs_no_stat_def ex_fs_blind_spot_def ex_cache_no_meta_def
  ex_cache_mixed_def ex_cache_pending_def ex_world_def ex_calls_def ex_tree_def ex_format_def

lemma refresh_loop_append:
  "refresh_loop h fs (xs @ ys) s = refresh_loop h fs ys (refresh_loop h fs xs s)"
  by (induction xs arbitrary: s) simp_all

lemma refresh_entry_cache_other:
  "k \<noteq> fst item \<Longrightarrow> rs_cache (refresh_entry h fs item s) k = rs_cache s k"
  by (simp add: refresh_entry_def log_call_def Let_def split: option.splits read_result.splits)

lemma refresh_entry_trace:
  "e \<in> set (rs_trace (refresh_entry h fs item s))
     \<Longrightarrow> e \<in> set (rs_trace s) \<or> event_source e = fst item"
  by (auto simp: refresh_entry_def log_call_def Let_def split: option.splits read_result.splits if_splits)

lemma refresh_loop_cache_other:
  "k \<notin> fst ` set items \<Longrightarrow> rs_cache (refresh_loop h fs items s) k = rs_cache s k"
  by (induction items arbitrary: s) (simp_all add: refresh_entry_cache_other)

lemma refresh_loop_trace:
  "e \<in> set (rs_trace (refresh_loop h fs items s))
     \<Longrightarrow> e \<in> set (rs_trace s) \<or> event_source e \<in> fst ` set items"
proof (induction items arbitrary: s)
  case Nil
  then show ?case by simp
next
  case (Cons item items)
  from Cons.IH [of "refresh_entry h fs item s"] Cons.prems
  have "e \<in> set (rs_trace (refresh_entry h fs item s)) \<or> event_source e \<in> fst ` set items"
    by simp
  then show ?case using refresh_entry_trace [of e h fs item s] by auto
qed

lemma refresh_entry_cong:
  "rs_cache s = rs_cache t \<Longrightarrow> rs_changed s = rs_changed t
     \<Longrightarrow> rs_cache (refresh_entry h fs item s) = rs_cache (refresh_entry h fs item t)
       \<and> rs_changed (refresh_entry h fs item s) = rs_changed (refresh_entry h fs item t)"
  by (simp add: refresh_entry_def log_call_def Let_def split: option.splits read_result.splits)

lemma refresh_loop_cong:
  "rs_cache s = rs_cache t \<Longrightarrow> rs_changed s = rs_changed t
     \<Longrightarrow> rs_cache (refresh_loop h fs items s) = rs_cache (refresh_loop h fs items t)
       \<and> rs_changed (refresh_loop h fs items s) = rs_changed (refresh_loop h fs items t)"
proof (induction items arbitrary: s t)
  case Nil
  then show ?case by simp
next
  case (Cons item items)
  show ?case
    using Cons.IH [of "refresh_entry h fs item s" "refresh_entry h fs item t"]
      refresh_entry_cong [OF Cons.prems]
    by simp
qed

lemma split_at_key:
  assumes "distinct (map fst items)" and "(k, p) \<in> set items"
  shows "\<exists>xs ys. items = xs @ (k, p) # ys \<and> k \<notin> fst ` set xs \<and> k \<notin> fst ` set ys"
proof -
  from assms(2) obtain xs ys where "items = xs @ (k, p) # ys"
    by (auto dest: split_list)
  with assms(1) show ?thesis by auto
qed

lemma delete_append: "AList.delete k (xs @ ys) = AList.delete k xs @ AList.delete k ys"
  by (induction xs) simp_all

lemma delete_at_key:
  "k \<notin> fst ` set xs \<Longrightarrow> k \<notin> fst ` set ys \<Longrightarrow> AList.delete k (xs @ (k, p) # ys) = xs @ ys"
  by (simp add: delete_append)

lemma comparison_meta_Some: "file' r = Some fm \<Longrightarrow> comparison_meta k r st = fm"
  by (simp add: comparison_meta_def)

lemma comparison_meta_None:
  "file' r = None \<Longrightarrow> comparison_meta k r st =
     \<lparr> rel_path = k, size_bytes = st_size st, mtime_ns = st_mtime_ns st \<rparr>"
  by (simp add: comparison_meta_def)

lemma refresh_entry_match:
  "rs_cache s k = Some r \<Longrightarrow> source_type r = ''file'' \<Longrightarrow> fs_stat fs p = Some st
     \<Longrightarrow> size_bytes (comparison_meta k r st) = st_size st
     \<Longrightarrow> mtime_ns (comparison_meta k r st) = st_mtime_ns st
     \<Longrightarrow> refresh_entry h fs (k, p) s = log_call (StatCall k) s"
  by (simp add: refresh_entry_def Let_def)

lemma refresh_entry_no_stat:
  "rs_cache s k = Some r \<Longrightarrow> source_type r = ''file'' \<Longrightarrow> fs_stat fs p = None
     \<Longrightarrow> refresh_entry h fs (k, p) s = log_call (StatCall k) s"
  by (simp add: refresh_entry_def Let_def)

lemma refresh_entry_read_fails:
  "rs_cache s k = Some r \<Longrightarrow> source_type r = ''file'' \<Longrightarrow> fs_stat fs p = Some st
     \<Longrightarrow> \<not> (size_bytes (comparison_meta k r st) = st_size st
            \<and> mtime_ns (comparison_meta k r st) = st_mtime_ns st)
     \<Longrightarrow> fs_read fs p = OSError \<or> fs_read fs p = UnicodeDecodeError
     \<Longrightarrow> refresh_entry h fs (k, p) s = log_call (ReadTextCall k) (log_call (StatCall k) s)"
  by (auto simp: refresh_entry_def Let_def)

lemma refresh_entry_reread:
  "rs_cache s k = Some r \<Longrightarrow> source_type r = ''file'' \<Longrightarrow> fs_stat fs p = Some st
     \<Longrightarrow> \<not> (size_bytes (comparison_meta k r st) = st_size st
            \<and> mtime_ns (comparison_meta k r st) = st_mtime_ns st)
     \<Longrightarrow> fs_read fs p = ReadOk text
     \<Longrightarrow> refresh_entry h fs (k, p) s =
           (log_call (HashTextCall k) (log_call (ReadTextCall k) (log_call (StatCall k) s)))
             \<lparr> rs_cache := (rs_cache s)(k \<mapsto>
                  r \<lparr> content_hash := h text,
                      summary_pending := (h text \<noteq> content_hash r \<or> summary_pending r),
                      file' := Some \<lparr> rel_path = k, size_bytes = st_size st,
                                       mtime_ns = st_mtime_ns st \<rparr> \<rparr>),
               rs_changed := True \<rparr>"
  by (cases r) (auto simp: refresh_entry_def Let_def log_call_def)

lemma refresh_entry_skips:
  assumes "rs_cache s k = Some r" and "source_type r = ''file''"
    and "fs_stat fs p = None
         \<or> (\<exists>st. fs_stat fs p = Some st \<and> size_bytes (comparison_meta k r st) = st_size st
                  \<and> mtime_ns (comparison_meta k r st) = st_mtime_ns st)
         \<or> fs_read fs p = OSError \<or> fs_read fs p = UnicodeDecodeError"
  shows "rs_cache (refresh_entry h fs (k, p) s) = rs_cache s
       \<and> rs_changed (refresh_entry h fs (k, p) s) = rs_changed s
       \<and> HashTextCall k \<notin> set (rs_trace (refresh_entry h fs (k, p) s)) - set (rs_trace s)"
  using assms
  by (auto simp: refresh_entry_def Let_def log_call_def split: option.splits)

text \<open>The state in which the loop reaches the item of a key, and what follows it.\<close>

lemma refresh_at_key:
  assumes "distinct (map fst items)" and "(k, p) \<in> set items"
  shows "\<exists>s1. rs_cache s1 k = cache k \<and> (\<forall>e \<in> set (rs_trace s1). event_source e \<noteq> k)
           \<and> rs_cache (refresh h items fs cache now) k = rs_cache (refresh_entry h fs (k, p) s1) k
           \<and> (\<forall>e \<in> set (rs_trace (refresh h items fs cache now)).
                 event_source e = k \<longrightarrow> e \<in> set (rs_trace (refresh_entry h fs (k, p) s1)))"
proof -
  from split_at_key [OF assms] obtain xs ys
    where items: "items = xs @ (k, p) # ys" and xs: "k \<notin> fst ` set xs" and ys: "k \<notin> fst ` set ys"
    by blast
  define s0 :: refresh_state where "s0 = \<lparr> rs_cache = cache, rs_changed = False, rs_trace = [] \<rparr>"
  define s1 where "s1 = refresh_loop h fs xs s0"
  define s2 where "s2 = refresh_entry h fs (k, p) s1"
  have final: "refresh h items fs cache now = refresh_loop h fs ys s2"
    by (simp add: refresh_def items refresh_loop_append s0_def s1_def s2_def)
  have c1: "rs_cache s1 k = cache k"
    using refresh_loop_cache_other [OF xs, of h fs s0] by (simp add: s1_def s0_def)
  have t1: "\<forall>e \<in> set (rs_trace s1). event_source e \<noteq> k"
    using refresh_loop_trace [of _ h fs xs s0] xs by (auto simp: s1_def s0_def)
  have c2: "rs_cache (refresh_loop h fs ys s2) k = rs_cache s2 k"
    by (rule refresh_loop_cache_other [OF ys])
  have t2: "\<forall>e \<in> set (rs_trace (refresh_loop h fs ys s2)). event_source e = k \<longrightarrow> e \<in> set (rs_trace s2)"
    using refresh_loop_trace [of _ h fs ys s2] ys by auto
  show ?thesis
    using c1 t1 c2 t2 final unfolding s2_def by metis
qed

lemma refresh_skip_key:
  assumes "distinct (map fst items)" and "(k, p) \<in> set items"
    and skip: "\<And>s. rs_cache s k = cache k \<Longrightarrow>
            rs_cache (refresh_entry h fs (k, p) s) = rs_cache s
            \<and> rs_changed (refresh_entry h fs (k, p) s) = rs_changed s"
  shows "rs_cache (refresh h items fs cache now) = rs_cache (refresh h (AList.delete k items) fs cache now)
       \<and> rs_changed (refresh h items fs cache now) = rs_changed (refresh h (AList.delete k items) fs cache now)"
proof -
  from split_at_key [OF assms(1,2)] obtain xs ys
    where items: "items = xs @ (k, p) # ys" and xs: "k \<notin> fst ` set xs" and ys: "k \<notin> fst ` set ys"
    by blast
  define s0 :: refresh_state where "s0 = \<lparr> rs_cache = cache, rs_changed = False, rs_trace = [] \<rparr>"
  define s1 where "s1 = refresh_loop h fs xs s0"
  have c1: "rs_cache s1 k = cache k"
    using refresh_loop_cache_other [OF xs, of h fs s0] by (simp add: s1_def s0_def)
  have lhs: "refresh h items fs cache now = refresh_loop h fs ys (refresh_entry h fs (k, p) s1)"
    by (simp add: refresh_def items refresh_loop_append s0_def s1_def)
  have rhs: "refresh h (AList.delete k items) fs cache now = refresh_loop h fs ys s1"
    by (simp add: refresh_def items delete_at_key [OF xs ys] refresh_loop_append s0_def s1_def)
  show ?thesis
    unfolding lhs rhs using refresh_loop_cong [of "refresh_entry h fs (k, p) s1" s1 h fs ys] skip [OF c1]
    by simp
qed

lemma refresh_entry_unchanged:
  "\<not> rs_changed (refresh_entry h fs item s)
     \<Longrightarrow> rs_cache (refresh_entry h fs item s) = rs_cache s \<and> \<not> rs_changed s"
  by (auto simp: refresh_entry_def log_call_def Let_def split: option.splits read_result.splits if_splits)

lemma refresh_loop_unchanged:
  "\<not> rs_changed (refresh_loop h fs items s)
     \<Longrightarrow> rs_cache (refresh_loop h fs items s) = rs_cache s \<and> \<not> rs_changed s"
proof (induction items arbitrary: s)
  case Nil
  then show ?case by simp
next
  case (Cons item items)
  from Cons.IH [of "refresh_entry h fs item s"] Cons.prems
  have "rs_cache (refresh_loop h fs items (refresh_entry h fs item s)) =
          rs_cache (refresh_entry h fs item s)"
    and "\<not> rs_changed (refresh_entry h fs item s)"
    by simp_all
  then show ?case using refresh_entry_unchanged [of h fs item s] by simp
qed

lemma refresh_entry_changed_file:
  "\<not> rs_changed s \<Longrightarrow> rs_changed (refresh_entry h fs item s)
     \<Longrightarrow> map_option file' (rs_cache (refresh_entry h fs item s) (fst item)) \<noteq>
         map_option file' (rs_cache s (fst item))"
  by (auto simp: refresh_entry_def log_call_def Let_def comparison_meta_def
        split: option.splits read_result.splits if_splits)

lemma refresh_entry_changed:
  "\<not> rs_changed s \<Longrightarrow> rs_changed (refresh_entry h fs item s)
     \<Longrightarrow> rs_cache (refresh_entry h fs item s) (fst item) \<noteq> rs_cache s (fst item)"
  using refresh_entry_changed_file [of s h fs item] by auto

lemma refresh_loop_changed:
  "distinct (map fst items) \<Longrightarrow> \<not> rs_changed s \<Longrightarrow> rs_changed (refresh_loop h fs items s)
     \<Longrightarrow> \<exists>k. rs_cache (refresh_loop h fs items s) k \<noteq> rs_cache s k"
proof (induction items arbitrary: s)
  case Nil
  then show ?case by simp
next
  case (Cons item items)
  show ?case
  proof (cases "rs_changed (refresh_entry h fs item s)")
    case True
    have "fst item \<notin> fst ` set items"
      using Cons.prems(1) by auto
    then have "rs_cache (refresh_loop h fs items (refresh_entry h fs item s)) (fst item) =
        rs_cache (refresh_entry h fs item s) (fst item)"
      by (rule refresh_loop_cache_other)
    then show ?thesis
      using refresh_entry_changed [OF Cons.prems(2) True]
      by (intro exI [of _ "fst item"]) simp
  next
    case False
    then have same: "rs_cache (refresh_entry h fs item s) = rs_cache s"
      using refresh_entry_unchanged by blast
    from Cons.IH [OF _ False] Cons.prems(1,3)
    have "\<exists>k. rs_cache (refresh_loop h fs items (refresh_entry h fs item s)) k \<noteq>
        rs_cache (refresh_entry h fs item s) k"
      by simp
    then show ?thesis by (simp add: same)
  qed
qed

section \<open>What every iteration keeps\<close>

lemma record_kept_refl: "record_kept r r"
  by (simp add: record_kept_def)

lemma record_kept_trans: "record_kept r1 r2 \<Longrightarrow> record_kept r2 r3 \<Longrightarrow> record_kept r1 r3"
  unfolding record_kept_def by metis

lemma cache_kept_refl: "cache_kept c c"
  by (simp add: cache_kept_def option.rel_refl record_kept_refl)

lemma cache_kept_trans: "cache_kept c1 c2 \<Longrightarrow> cache_kept c2 c3 \<Longrightarrow> cache_kept c1 c3"
  unfolding cache_kept_def
proof
  fix k
  assume a: "\<forall>k. rel_option record_kept (c1 k) (c2 k)" and b: "\<forall>k. rel_option record_kept (c2 k) (c3 k)"
  from a b have "rel_option record_kept (c1 k) (c2 k)" and "rel_option record_kept (c2 k) (c3 k)"
    by simp_all
  then show "rel_option record_kept (c1 k) (c3 k)"
    by (cases "c1 k"; cases "c2 k"; cases "c3 k") (auto intro: record_kept_trans)
qed

lemma refresh_entry_kept: "cache_kept (rs_cache s) (rs_cache (refresh_entry h fs item s))"
  unfolding cache_kept_def
proof
  fix k
  show "rel_option record_kept (rs_cache s k) (rs_cache (refresh_entry h fs item s) k)"
  proof (cases "k = fst item")
    case False
    then show ?thesis
      by (simp add: refresh_entry_cache_other option.rel_refl record_kept_refl)
  next
    case True
    then show ?thesis
      by (auto simp: refresh_entry_def log_call_def Let_def record_kept_def option.rel_refl
            split: option.splits read_result.splits)
  qed
qed

lemma refresh_loop_kept: "cache_kept (rs_cache s) (rs_cache (refresh_loop h fs items s))"
proof (induction items arbitrary: s)
  case Nil
  show ?case by (simp add: cache_kept_refl)
next
  case (Cons item items)
  show ?case
    using cache_kept_trans [OF refresh_entry_kept Cons.IH] by simp
qed

lemma refresh_kept: "cache_kept cache (rs_cache (refresh h items fs cache now))"
  using refresh_loop_kept [of "\<lparr> rs_cache = cache, rs_changed = False, rs_trace = [] \<rparr>" h fs items]
  by (simp add: refresh_def)

lemma provider_step_kept:
  "cache_kept (pw_cache w) (pw_cache (provider_step fmt h sd w c))"
  by (cases c) (simp_all add: cache_kept_refl refresh_kept Let_def)

lemma run_calls_kept: "cache_kept (pw_cache w) (pw_cache (run_calls fmt h sd w calls))"
  unfolding run_calls_def
proof (induction calls arbitrary: w)
  case Nil
  show ?case by (simp add: cache_kept_refl)
next
  case (Cons c calls)
  show ?case
    using cache_kept_trans [OF provider_step_kept Cons.IH] by simp
qed

lemma cache_kept_Some:
  "cache_kept c c' \<Longrightarrow> c k = Some r \<Longrightarrow> \<exists>r'. c' k = Some r' \<and> record_kept r r'"
  unfolding cache_kept_def by (metis option.rel_inject(2) option.rel_cases option.distinct(1))

lemma cache_kept_None: "cache_kept c c' \<Longrightarrow> c k = None \<longleftrightarrow> c' k = None"
  unfolding cache_kept_def by (metis option.rel_distinct(1) option.rel_distinct(2) option.exhaust)

lemmas refresh_eval = refresh_def refresh_entry_def log_call_def comparison_meta_def Let_def

section \<open>The walk of \<^verbatim>\<open>discover\<close>\<close>







lemma discover_step_cases:
  assumes "discover_step sd acc found = Inr acc'"
  shows "(is_file (snd found) = Inr True \<and> \<not> startswith_dot (last (fst found))
          \<and> acc' = (AList.update (as_posix (fst found)) ''file'' (fst acc),
                     AList.update (as_posix (fst found)) (sd @ fst found) (snd acc)))
       \<or> (\<not> (is_file (snd found) = Inr True \<and> \<not> startswith_dot (last (fst found)))
          \<and> acc' = acc)"
  using assms by (auto simp: discover_step_def Let_def split: sum.splits if_splits)




lemma discover_step_distinct:
  "discover_step sd acc found = Inr acc'
     \<Longrightarrow> distinct (map fst (fst acc)) \<and> distinct (map fst (snd acc))
     \<Longrightarrow> distinct (map fst (fst acc')) \<and> distinct (map fst (snd acc'))"
  using discover_step_cases [of sd acc found acc'] by (auto simp: distinct_update)




lemma discover_loop_distinct:
  "distinct (map fst (fst acc)) \<and> distinct (map fst (snd acc))
     \<Longrightarrow> distinct (map fst (snd (discover_loop sd acc xs)))
       \<and> (\<forall>sources. fst (discover_loop sd acc xs) = Inr sources \<longrightarrow> distinct (map fst sources))"
proof (induction xs arbitrary: acc)
  case Nil
  then show ?case by auto
next
  case (Cons found xs)
  show ?case
  proof (cases "discover_step sd acc found")
    case (Inl e)
    then show ?thesis using Cons.prems by simp
  next
    case (Inr acc')
    then show ?thesis
      using Cons.IH [OF discover_step_distinct [OF Inr Cons.prems]] by simp
  qed
qed

lemma discover_index_distinct: "distinct (map fst (snd (discover sd root)))"
  using discover_loop_distinct [of "([], [])" sd "rglob_root root"]
  by (simp add: discover_def split: sum.splits)





section \<open>Claims\<close>

text \<open>
  Claim C1. A record of type \<^verbatim>\<open>"file"\<close> known to the provider whose stored size and
  modification time equal the current stat is left as it is by \<^verbatim>\<open>refresh\<close>, and
  \<^verbatim>\<open>refresh\<close> makes no \<^verbatim>\<open>read_text\<close> and no \<^verbatim>\<open>hash_text\<close> call for it, whatever the
  file holds. The index is a dictionary, so its keys are distinct.
\<close>

theorem refresh_fingerprint_match_skips:
  assumes "distinct (map fst file_sources)" and "(rp, file_path) \<in> set file_sources"
    and "cache rp = Some record" and "source_type record = ''file''"
    and "file' record = Some file_meta" and "fs_stat fs file_path = Some stat"
    and "size_bytes file_meta = st_size stat" and "mtime_ns file_meta = st_mtime_ns stat"
  shows "rs_cache (refresh hash_text file_sources fs cache now) rp = Some record
       \<and> ReadTextCall rp \<notin> set (rs_trace (refresh hash_text file_sources fs cache now))
       \<and> HashTextCall rp \<notin> set (rs_trace (refresh hash_text file_sources fs cache now))"
proof -
  from refresh_at_key [OF assms(1,2), of cache hash_text fs now] obtain s1
    where c1: "rs_cache s1 rp = cache rp"
      and t1: "\<forall>e \<in> set (rs_trace s1). event_source e \<noteq> rp"
      and c2: "rs_cache (refresh hash_text file_sources fs cache now) rp =
               rs_cache (refresh_entry hash_text fs (rp, file_path) s1) rp"
      and t2: "\<forall>e \<in> set (rs_trace (refresh hash_text file_sources fs cache now)).
                 event_source e = rp \<longrightarrow>
                 e \<in> set (rs_trace (refresh_entry hash_text fs (rp, file_path) s1))"
    by blast
  have step: "refresh_entry hash_text fs (rp, file_path) s1 = log_call (StatCall rp) s1"
    using c1 assms(3-8)
    by (intro refresh_entry_match [where r = "record" and st = stat])
       (simp_all add: comparison_meta_Some)
  have "rs_cache (refresh hash_text file_sources fs cache now) rp = Some record"
    using c2 c1 assms(3) by (simp add: step log_call_def)
  moreover have "ReadTextCall rp \<notin> set (rs_trace (refresh hash_text file_sources fs cache now))"
    using t2 t1 by (fastforce simp: step log_call_def)
  moreover have "HashTextCall rp \<notin> set (rs_trace (refresh hash_text file_sources fs cache now))"
    using t2 t1 by (fastforce simp: step log_call_def)
  ultimately show ?thesis by simp
qed

theorem refresh_fingerprint_match_skips_witness:
  "fs_read ex_fs_blind_spot [''kb'', ''b.txt''] = ReadOk ''w0rld''
   \<and> ex_hash ''w0rld'' \<noteq> content_hash (ex_record ''b.txt'' ''world'' 5 100)
   \<and> rs_cache (refresh ex_hash ex_sources ex_fs_blind_spot ex_cache ''2026-01-02T00:00:00Z'')
        ''b.txt'' = Some (ex_record ''b.txt'' ''world'' 5 100)
   \<and> ReadTextCall ''b.txt'' \<notin>
        set (rs_trace (refresh ex_hash ex_sources ex_fs_blind_spot ex_cache ''2026-01-02T00:00:00Z''))
   \<and> HashTextCall ''b.txt'' \<notin>
        set (rs_trace (refresh ex_hash ex_sources ex_fs_blind_spot ex_cache ''2026-01-02T00:00:00Z''))"
  using refresh_fingerprint_match_skips [of ex_sources "''b.txt''" "[''kb'', ''b.txt'']" ex_cache
      "ex_record ''b.txt'' ''world'' 5 100"
      "\<lparr> rel_path = ''b.txt'', size_bytes = 5, mtime_ns = 100 \<rparr>" ex_fs_blind_spot
      "\<lparr> st_size = 5, st_mtime_ns = 100 \<rparr>" ex_hash "''2026-01-02T00:00:00Z''"]
  by (simp add: ex_defs)

text \<open>
  Claim C2. For a known record of type \<^verbatim>\<open>"file"\<close> whose fingerprint differs from the
  stat and whose text is read, \<^verbatim>\<open>refresh\<close> stores the new fingerprint and the new
  hash, and the record is pending afterwards exactly when the new hash differs from the
  stored one or the record was pending before; \<^verbatim>\<open>refresh\<close> returns true exactly when
  the cache after the call differs from the cache before it.
\<close>

theorem refresh_reread_updates:
  assumes "distinct (map fst file_sources)"
  shows "(\<forall>rp file_path record file_meta stat text.
            (rp, file_path) \<in> set file_sources \<and> cache rp = Some record
            \<and> source_type record = ''file'' \<and> file' record = Some file_meta
            \<and> fs_stat fs file_path = Some stat
            \<and> \<not> (size_bytes file_meta = st_size stat \<and> mtime_ns file_meta = st_mtime_ns stat)
            \<and> fs_read fs file_path = ReadOk text
            \<longrightarrow> rs_cache (refresh hash_text file_sources fs cache now) rp =
                  Some (record \<lparr> content_hash := hash_text text,
                                 summary_pending :=
                                   (hash_text text \<noteq> content_hash record \<or> summary_pending record),
                                 file' := Some \<lparr> rel_path = rp, size_bytes = st_size stat,
                                                  mtime_ns = st_mtime_ns stat \<rparr> \<rparr>))
       \<and> (rs_changed (refresh hash_text file_sources fs cache now)
            \<longleftrightarrow> (\<exists>k. rs_cache (refresh hash_text file_sources fs cache now) k \<noteq> cache k))"
proof -
  have one: "rs_cache (refresh hash_text file_sources fs cache now) rp =
      Some (rec \<lparr> content_hash := hash_text content,
                     summary_pending :=
                       (hash_text content \<noteq> content_hash rec \<or> summary_pending rec),
                     file' := Some \<lparr> rel_path = rp, size_bytes = st_size stat,
                                      mtime_ns = st_mtime_ns stat \<rparr> \<rparr>)"
    if "(rp, file_path) \<in> set file_sources" and "cache rp = Some rec"
      and "source_type rec = ''file''" and "file' rec = Some file_meta"
      and "fs_stat fs file_path = Some stat"
      and "\<not> (size_bytes file_meta = st_size stat \<and> mtime_ns file_meta = st_mtime_ns stat)"
      and "fs_read fs file_path = ReadOk content"
    for rp file_path rec file_meta stat content
  proof -
    from refresh_at_key [OF assms that(1), of cache hash_text fs now] obtain s1
      where c1: "rs_cache s1 rp = cache rp"
        and c2: "rs_cache (refresh hash_text file_sources fs cache now) rp =
                 rs_cache (refresh_entry hash_text fs (rp, file_path) s1) rp"
      by blast
    have "rs_cache s1 rp = Some rec"
      using c1 that(2) by simp
    moreover have "\<not> (size_bytes (comparison_meta rp rec stat) = st_size stat
        \<and> mtime_ns (comparison_meta rp rec stat) = st_mtime_ns stat)"
      using that(4,6) by (simp add: comparison_meta_Some)
    ultimately show ?thesis
      using refresh_entry_reread [of s1 rp rec fs file_path stat content hash_text] that(3,5,7) c2
      by (simp add: log_call_def)
  qed
  define s0 :: refresh_state where "s0 = \<lparr> rs_cache = cache, rs_changed = False, rs_trace = [] \<rparr>"
  have ref: "refresh hash_text file_sources fs cache now = refresh_loop hash_text fs file_sources s0"
    by (simp add: refresh_def s0_def)
  have two: "rs_changed (refresh hash_text file_sources fs cache now)
      \<longleftrightarrow> (\<exists>k. rs_cache (refresh hash_text file_sources fs cache now) k \<noteq> cache k)"
  proof
    assume "rs_changed (refresh hash_text file_sources fs cache now)"
    then show "\<exists>k. rs_cache (refresh hash_text file_sources fs cache now) k \<noteq> cache k"
      using refresh_loop_changed [OF assms, of s0 hash_text fs] by (simp add: ref s0_def)
  next
    assume "\<exists>k. rs_cache (refresh hash_text file_sources fs cache now) k \<noteq> cache k"
    then have "rs_cache (refresh_loop hash_text fs file_sources s0) \<noteq> rs_cache s0"
      by (auto simp: ref s0_def)
    then show "rs_changed (refresh hash_text file_sources fs cache now)"
      using refresh_loop_unchanged [of hash_text fs file_sources s0] unfolding ref by blast
  qed
  from one two show ?thesis by blast
qed

theorem refresh_reread_updates_witness:
  "rs_cache (refresh ex_hash ex_sources ex_fs ex_cache ''2026-01-02T00:00:00Z'') ''a.txt'' =
     Some \<lparr> source_type = ''file'', content_hash = ''H(hello!)'', summary_text = ''summary'',
            last_indexed_at = ''2026-01-01T00:00:00Z'', summary_pending = True,
            file' = Some \<lparr> rel_path = ''a.txt'', size_bytes = 6, mtime_ns = 200 \<rparr> \<rparr>
   \<and> rs_changed (refresh ex_hash ex_sources ex_fs ex_cache ''2026-01-02T00:00:00Z'')"
proof -
  have d: "distinct (map fst ex_sources)"
    by (simp add: ex_sources_def)
  note both = refresh_reread_updates [OF d, where fs = ex_fs and cache = ex_cache
    and hash_text = ex_hash and now = "''2026-01-02T00:00:00Z''"]
  from both have
    "(''a.txt'', [''kb'', ''a.txt'']) \<in> set ex_sources
       \<and> ex_cache ''a.txt'' = Some (ex_record ''a.txt'' ''hello'' 5 100)
       \<and> source_type (ex_record ''a.txt'' ''hello'' 5 100) = ''file''
       \<and> file' (ex_record ''a.txt'' ''hello'' 5 100) =
           Some \<lparr> rel_path = ''a.txt'', size_bytes = 5, mtime_ns = 100 \<rparr>
       \<and> fs_stat ex_fs [''kb'', ''a.txt''] = Some \<lparr> st_size = 6, st_mtime_ns = 200 \<rparr>
       \<and> \<not> (size_bytes \<lparr> rel_path = ''a.txt'', size_bytes = 5, mtime_ns = 100 \<rparr> =
              st_size \<lparr> st_size = 6, st_mtime_ns = 200 \<rparr>
            \<and> mtime_ns \<lparr> rel_path = ''a.txt'', size_bytes = 5, mtime_ns = 100 \<rparr> =
              st_mtime_ns \<lparr> st_size = 6, st_mtime_ns = 200 \<rparr>)
       \<and> fs_read ex_fs [''kb'', ''a.txt''] = ReadOk ''hello!''
     \<longrightarrow> rs_cache (refresh ex_hash ex_sources ex_fs ex_cache ''2026-01-02T00:00:00Z'') ''a.txt'' =
           Some ((ex_record ''a.txt'' ''hello'' 5 100)
                   \<lparr> content_hash := ex_hash ''hello!'',
                     summary_pending :=
                       (ex_hash ''hello!'' \<noteq> content_hash (ex_record ''a.txt'' ''hello'' 5 100)
                        \<or> summary_pending (ex_record ''a.txt'' ''hello'' 5 100)),
                     file' := Some \<lparr> rel_path = ''a.txt'', size_bytes = st_size \<lparr> st_size = 6, st_mtime_ns = 200 \<rparr>,
                                      mtime_ns = st_mtime_ns \<lparr> st_size = 6, st_mtime_ns = 200 \<rparr> \<rparr> \<rparr>)"
    by blast
  then have a: "rs_cache (refresh ex_hash ex_sources ex_fs ex_cache ''2026-01-02T00:00:00Z'') ''a.txt'' =
     Some \<lparr> source_type = ''file'', content_hash = ''H(hello!)'', summary_text = ''summary'',
            last_indexed_at = ''2026-01-01T00:00:00Z'', summary_pending = True,
            file' = Some \<lparr> rel_path = ''a.txt'', size_bytes = 6, mtime_ns = 200 \<rparr> \<rparr>"
    by (simp add: ex_sources_def ex_cache_def ex_record_def ex_hash_def ex_fs_def)
  then have "rs_cache (refresh ex_hash ex_sources ex_fs ex_cache ''2026-01-02T00:00:00Z'') ''a.txt''
      \<noteq> ex_cache ''a.txt''"
    by (simp add: ex_cache_def ex_record_def ex_hash_def)
  with both have "rs_changed (refresh ex_hash ex_sources ex_fs ex_cache ''2026-01-02T00:00:00Z'')"
    by blast
  with a show ?thesis by simp
qed

text \<open>
  Claim C3. For a \<^verbatim>\<open>source_id\<close> of the provider's index whose stat and UTF-8
  read both succeed, \<^verbatim>\<open>init_record\<close> returns a record of type \<^verbatim>\<open>"file"\<close>, pending,
  with empty summary, the hash of the text just read and the fingerprint of the
  stat; it returns nothing when the \<^verbatim>\<open>source_id\<close> is unknown, the stat fails, the
  read fails or the content does not decode.
\<close>

theorem init_record_result:
  "(map_of file_sources source_id = Some file_path \<and> fs_stat fs file_path = Some stat
      \<and> fs_read fs file_path = ReadOk text
    \<longrightarrow> init_record format_rfc3339 hash_text file_sources fs source_id now =
          Some \<lparr> source_type = ''file'', content_hash = hash_text text, summary_text = '''',
                 last_indexed_at = format_rfc3339 now, summary_pending = True,
                 file' = Some \<lparr> rel_path = source_id, size_bytes = st_size stat,
                                mtime_ns = st_mtime_ns stat \<rparr> \<rparr>)
   \<and> (map_of file_sources source_id = None
        \<longrightarrow> init_record format_rfc3339 hash_text file_sources fs source_id now = None)
   \<and> (map_of file_sources source_id = Some file_path \<and> fs_stat fs file_path = None
        \<longrightarrow> init_record format_rfc3339 hash_text file_sources fs source_id now = None)
   \<and> (map_of file_sources source_id = Some file_path \<and> fs_read fs file_path = OSError
        \<longrightarrow> init_record format_rfc3339 hash_text file_sources fs source_id now = None)
   \<and> (map_of file_sources source_id = Some file_path
        \<and> fs_read fs file_path = UnicodeDecodeError
        \<longrightarrow> init_record format_rfc3339 hash_text file_sources fs source_id now = None)"
  by (simp add: init_record_def split: option.splits)

theorem init_record_result_witness:
  "init_record ex_format ex_hash ex_sources ex_fs ''a.txt'' ''2026-01-02T00:00:00Z'' =
     Some \<lparr> source_type = ''file'', content_hash = ex_hash ''hello!'', summary_text = '''',
            last_indexed_at = ex_format ''2026-01-02T00:00:00Z'', summary_pending = True,
            file' = Some \<lparr> rel_path = ''a.txt'', size_bytes = 6, mtime_ns = 200 \<rparr> \<rparr>
   \<and> init_record ex_format ex_hash ex_sources ex_fs ''c.txt'' ''2026-01-02T00:00:00Z'' = None
   \<and> init_record ex_format ex_hash ex_sources ex_fs_no_stat ''a.txt''
         ''2026-01-02T00:00:00Z'' = None
   \<and> init_record ex_format ex_hash ex_sources ex_fs_unreadable ''a.txt''
         ''2026-01-02T00:00:00Z'' = None
   \<and> init_record ex_format ex_hash ex_sources ex_fs_undecodable ''a.txt''
         ''2026-01-02T00:00:00Z'' = None"
  using
    init_record_result [of ex_sources "''a.txt''" "[''kb'', ''a.txt'']" ex_fs
      "\<lparr> st_size = 6, st_mtime_ns = 200 \<rparr>" "''hello!''" ex_format ex_hash
      "''2026-01-02T00:00:00Z''"]
    init_record_result [of ex_sources "''c.txt''" "[]" ex_fs undefined undefined
      ex_format ex_hash "''2026-01-02T00:00:00Z''"]
    init_record_result [of ex_sources "''a.txt''" "[''kb'', ''a.txt'']" ex_fs_no_stat
      undefined undefined ex_format ex_hash "''2026-01-02T00:00:00Z''"]
    init_record_result [of ex_sources "''a.txt''" "[''kb'', ''a.txt'']" ex_fs_unreadable
      undefined undefined ex_format ex_hash "''2026-01-02T00:00:00Z''"]
    init_record_result [of ex_sources "''a.txt''" "[''kb'', ''a.txt'']" ex_fs_undecodable
      undefined undefined ex_format ex_hash "''2026-01-02T00:00:00Z''"]
  by (simp add: ex_sources_def ex_fs_def ex_fs_no_stat_def ex_fs_unreadable_def
        ex_fs_undecodable_def)

text \<open>
  Claim C4, first as stated: a cached record whose content has become undecodable would
  be gone after the pass that meets the decode failure. \<^verbatim>\<open>refresh\<close> is the last step
  of a pass that touches the cache, and here it reads \<^verbatim>\<open>a.txt\<close>, fails to decode it
  and leaves the record in the cache.
\<close>

theorem refresh_keeps_undecodable_record_counterexample:
  "fs_read ex_fs_undecodable [''kb'', ''a.txt''] = UnicodeDecodeError
   \<and> ReadTextCall ''a.txt'' \<in>
       set (rs_trace (refresh ex_hash ex_sources ex_fs_undecodable ex_cache ''2026-01-02T00:00:00Z''))
   \<and> rs_cache (refresh ex_hash ex_sources ex_fs_undecodable ex_cache ''2026-01-02T00:00:00Z'')
        ''a.txt'' = Some (ex_record ''a.txt'' ''hello'' 5 100)"
  by (simp add: refresh_eval ex_defs)

text \<open>
  Claim C4, amended. \<^verbatim>\<open>init_record\<close> returns nothing for a source whose content does not
  decode, so such a source is never added; a record already cached whose content no
  longer decodes is left by \<^verbatim>\<open>refresh\<close> in the cache, as it was.
\<close>

theorem undecodable_source_handling:
  "(map_of file_sources source_id = Some file_path
      \<and> fs_read fs file_path = UnicodeDecodeError
    \<longrightarrow> init_record format_rfc3339 hash_text file_sources fs source_id now = None)
   \<and> (distinct (map fst file_sources) \<and> (rp, file_path) \<in> set file_sources
        \<and> cache rp = Some rec \<and> source_type rec = ''file''
        \<and> fs_read fs file_path = UnicodeDecodeError
      \<longrightarrow> rs_cache (refresh hash_text file_sources fs cache now) rp = Some rec)"
proof -
  have "rs_cache (refresh hash_text file_sources fs cache now) rp = Some rec"
    if d: "distinct (map fst file_sources)" and m: "(rp, file_path) \<in> set file_sources"
      and c: "cache rp = Some rec" and t: "source_type rec = ''file''"
      and u: "fs_read fs file_path = UnicodeDecodeError"
  proof -
    from refresh_at_key [OF d m, of cache hash_text fs now] obtain s1
      where c1: "rs_cache s1 rp = cache rp"
        and c2: "rs_cache (refresh hash_text file_sources fs cache now) rp =
                 rs_cache (refresh_entry hash_text fs (rp, file_path) s1) rp"
      by blast
    have "rs_cache (refresh_entry hash_text fs (rp, file_path) s1) = rs_cache s1"
      using refresh_entry_skips [of s1 rp rec fs file_path hash_text] c1 c t u by simp
    then show ?thesis using c1 c2 c by simp
  qed
  moreover have "init_record format_rfc3339 hash_text file_sources fs source_id now = None"
    if "map_of file_sources source_id = Some file_path"
      and "fs_read fs file_path = UnicodeDecodeError"
    using that by (simp add: init_record_def split: option.splits)
  ultimately show ?thesis by blast
qed

theorem undecodable_source_handling_witness:
  "init_record ex_format ex_hash ex_sources ex_fs_undecodable ''a.txt'' ''2026-01-02T00:00:00Z''
     = None
   \<and> rs_cache (refresh ex_hash ex_sources ex_fs_undecodable ex_cache ''2026-01-02T00:00:00Z'')
        ''a.txt'' = Some (ex_record ''a.txt'' ''hello'' 5 100)"
  using undecodable_source_handling [of ex_sources "''a.txt''" "[''kb'', ''a.txt'']"
      ex_fs_undecodable ex_format ex_hash "''2026-01-02T00:00:00Z''" "''a.txt''" ex_cache
      "ex_record ''a.txt'' ''hello'' 5 100"]
  by (simp add: ex_sources_def ex_fs_undecodable_def ex_fs_def ex_cache_def ex_record_def)

text \<open>
  Claim C5. When the stat of a known record of type \<^verbatim>\<open>"file"\<close> fails, or its read
  fails with \<^verbatim>\<open>OSError\<close>, \<^verbatim>\<open>refresh\<close> leaves the record as it is, and the cache and
  the returned flag are those of a \<^verbatim>\<open>refresh\<close> over the other sources alone.
\<close>

theorem refresh_transient_failure_keeps_record:
  assumes "distinct (map fst file_sources)" and "(rp, file_path) \<in> set file_sources"
    and "cache rp = Some record" and "source_type record = ''file''"
    and "fs_stat fs file_path = None \<or> fs_read fs file_path = OSError"
  shows "rs_cache (refresh hash_text file_sources fs cache now) rp = Some record
       \<and> rs_cache (refresh hash_text file_sources fs cache now) =
           rs_cache (refresh hash_text (AList.delete rp file_sources) fs cache now)
       \<and> rs_changed (refresh hash_text file_sources fs cache now) =
           rs_changed (refresh hash_text (AList.delete rp file_sources) fs cache now)"
proof -
  have skip: "rs_cache (refresh_entry hash_text fs (rp, file_path) s) = rs_cache s
            \<and> rs_changed (refresh_entry hash_text fs (rp, file_path) s) = rs_changed s"
    if "rs_cache s rp = cache rp" for s
    using refresh_entry_skips [of s rp "record" fs file_path hash_text] that assms(3-5)
    by auto
  from refresh_at_key [OF assms(1,2), of cache hash_text fs now] obtain s1
    where c1: "rs_cache s1 rp = cache rp"
      and c2: "rs_cache (refresh hash_text file_sources fs cache now) rp =
               rs_cache (refresh_entry hash_text fs (rp, file_path) s1) rp"
    by blast
  have "rs_cache (refresh hash_text file_sources fs cache now) rp = Some record"
    using c2 c1 skip [OF c1] assms(3) by simp
  then show ?thesis
    using refresh_skip_key [OF assms(1,2), of cache hash_text fs now] skip by simp
qed

theorem refresh_transient_failure_keeps_record_witness:
  "rs_cache (refresh ex_hash ex_sources ex_fs_unreadable ex_cache ''2026-01-02T00:00:00Z'') ''a.txt''
     = Some (ex_record ''a.txt'' ''hello'' 5 100)
   \<and> rs_cache (refresh ex_hash ex_sources ex_fs_unreadable ex_cache ''2026-01-02T00:00:00Z'') =
       rs_cache (refresh ex_hash (AList.delete ''a.txt'' ex_sources) ex_fs_unreadable ex_cache
                   ''2026-01-02T00:00:00Z'')
   \<and> rs_changed (refresh ex_hash ex_sources ex_fs_unreadable ex_cache ''2026-01-02T00:00:00Z'') =
       rs_changed (refresh ex_hash (AList.delete ''a.txt'' ex_sources) ex_fs_unreadable ex_cache
                   ''2026-01-02T00:00:00Z'')"
proof -
  have "distinct (map fst ex_sources)"
    and "(''a.txt'', [''kb'', ''a.txt'']) \<in> set ex_sources"
    and "ex_cache ''a.txt'' = Some (ex_record ''a.txt'' ''hello'' 5 100)"
    and "source_type (ex_record ''a.txt'' ''hello'' 5 100) = ''file''"
    and "fs_stat ex_fs_unreadable [''kb'', ''a.txt''] = None
         \<or> fs_read ex_fs_unreadable [''kb'', ''a.txt''] = OSError"
    by (simp_all add: ex_defs)
  then show ?thesis
    by (rule refresh_transient_failure_keeps_record)
qed

text \<open>
  Claim C6. \<^verbatim>\<open>refresh\<close> neither adds nor removes a key of the cache, whatever the file
  system does; a key without a record stays without one, and a record of another type
  than \<^verbatim>\<open>"file"\<close>, or of a key the provider does not know, is left as it is.
\<close>

theorem refresh_keeps_keys:
  "dom (rs_cache (refresh hash_text file_sources fs cache now)) = dom cache
   \<and> (cache k = None \<longrightarrow> rs_cache (refresh hash_text file_sources fs cache now) k = None)
   \<and> (cache k = Some r \<and> source_type r \<noteq> ''file''
        \<longrightarrow> rs_cache (refresh hash_text file_sources fs cache now) k = Some r)
   \<and> (k \<notin> fst ` set file_sources
        \<longrightarrow> rs_cache (refresh hash_text file_sources fs cache now) k = cache k)"
proof -
  note kept = refresh_kept [of cache hash_text file_sources fs now]
  have "dom (rs_cache (refresh hash_text file_sources fs cache now)) = dom cache"
    using cache_kept_None [OF kept] by (auto simp: dom_def)
  moreover have "rs_cache (refresh hash_text file_sources fs cache now) k = None"
    if "cache k = None"
    using cache_kept_None [OF kept, of k] that by simp
  moreover have "rs_cache (refresh hash_text file_sources fs cache now) k = Some r"
    if "cache k = Some r" and "source_type r \<noteq> ''file''"
    using cache_kept_Some [OF kept that(1)] that(2) by (auto simp: record_kept_def)
  moreover have "rs_cache (refresh hash_text file_sources fs cache now) k = cache k"
    if "k \<notin> fst ` set file_sources"
    using refresh_loop_cache_other [OF that] by (simp add: refresh_def)
  ultimately show ?thesis by blast
qed

theorem refresh_keeps_keys_witness:
  "dom (rs_cache (refresh ex_hash ex_sources ex_fs ex_cache_mixed ''2026-01-02T00:00:00Z''))
     = {''a.txt'', ''b.txt''}
   \<and> rs_cache (refresh ex_hash ex_sources ex_fs ex_cache_mixed ''2026-01-02T00:00:00Z'') ''c.txt''
       = None
   \<and> rs_cache (refresh ex_hash ex_sources ex_fs ex_cache_mixed ''2026-01-02T00:00:00Z'') ''b.txt''
       = Some ((ex_record ''b.txt'' ''world'' 4 1) \<lparr> source_type := ''web'' \<rparr>)"
  using refresh_keeps_keys [of ex_hash ex_sources ex_fs ex_cache_mixed "''2026-01-02T00:00:00Z''"
      "''c.txt''" undefined]
    refresh_keeps_keys [of ex_hash ex_sources ex_fs ex_cache_mixed "''2026-01-02T00:00:00Z''"
      "''b.txt''" "(ex_record ''b.txt'' ''world'' 4 1) \<lparr> source_type := ''web'' \<rparr>"]
  by (auto simp: ex_cache_mixed_def ex_cache_def ex_record_def ex_sources_def)

text \<open>
  Claim C7. A record built by \<^verbatim>\<open>init_record\<close> is pending; a record whose hash
  \<^verbatim>\<open>refresh\<close> changes is pending afterwards; and through any sequence of calls of
  \<^verbatim>\<open>discover\<close>, \<^verbatim>\<open>init_record\<close>, \<^verbatim>\<open>refresh\<close> and \<^verbatim>\<open>load_text\<close> a pending record
  of the cache stays in the cache and stays pending.
\<close>

theorem summary_pending_never_cleared:
  "(init_record format_rfc3339 hash_text file_sources fs source_id now = Some r0
      \<longrightarrow> summary_pending r0)
   \<and> (cache k = Some r \<and> rs_cache (refresh hash_text file_sources fs cache now) k = Some r'
        \<and> content_hash r' \<noteq> content_hash r \<longrightarrow> summary_pending r')
   \<and> (pw_cache w k = Some r \<and> summary_pending r
        \<longrightarrow> (\<exists>r'. pw_cache (run_calls format_rfc3339 hash_text sources_dir w calls) k = Some r'
                 \<and> summary_pending r'))"
proof -
  have "summary_pending r0"
    if "init_record format_rfc3339 hash_text file_sources fs source_id now = Some r0"
    using that
    by (auto simp: init_record_def split: option.splits read_result.splits)
  moreover have "summary_pending r'"
    if "cache k = Some r" and "rs_cache (refresh hash_text file_sources fs cache now) k = Some r'"
      and "content_hash r' \<noteq> content_hash r"
    using cache_kept_Some [OF refresh_kept [of cache hash_text file_sources fs now] that(1)] that(2,3)
    by (auto simp: record_kept_def)
  moreover have "\<exists>r'. pw_cache (run_calls format_rfc3339 hash_text sources_dir w calls) k = Some r'
      \<and> summary_pending r'"
    if "pw_cache w k = Some r" and "summary_pending r"
    using cache_kept_Some
        [OF run_calls_kept [of w format_rfc3339 hash_text sources_dir calls] that(1)]
      that(2)
    by (auto simp: record_kept_def)
  ultimately show ?thesis by blast
qed

theorem summary_pending_never_cleared_witness:
  "summary_pending \<lparr> source_type = ''file'', content_hash = ex_hash ''hello!'', summary_text = '''',
            last_indexed_at = ex_format ''2026-01-02T00:00:00Z'', summary_pending = True,
            file' = Some \<lparr> rel_path = ''a.txt'', size_bytes = 6, mtime_ns = 200 \<rparr> \<rparr>
   \<and> summary_pending \<lparr> source_type = ''file'', content_hash = ''H(hello!)'',
            summary_text = ''summary'', last_indexed_at = ''2026-01-01T00:00:00Z'',
            summary_pending = True,
            file' = Some \<lparr> rel_path = ''a.txt'', size_bytes = 6, mtime_ns = 200 \<rparr> \<rparr>
   \<and> (\<exists>r'. pw_cache (run_calls ex_format ex_hash [''kb''] (ex_world \<lparr> pw_cache := ex_cache_pending \<rparr>)
                 ex_calls) ''b.txt'' = Some r' \<and> summary_pending r')"
proof -
  have i: "init_record ex_format ex_hash ex_sources ex_fs ''a.txt'' ''2026-01-02T00:00:00Z'' =
     Some \<lparr> source_type = ''file'', content_hash = ex_hash ''hello!'', summary_text = '''',
            last_indexed_at = ex_format ''2026-01-02T00:00:00Z'', summary_pending = True,
            file' = Some \<lparr> rel_path = ''a.txt'', size_bytes = 6, mtime_ns = 200 \<rparr> \<rparr>"
    by (simp add: init_record_def ex_defs)
  have c: "ex_cache ''a.txt'' = Some (ex_record ''a.txt'' ''hello'' 5 100)"
    by (simp add: ex_defs)
  have r: "rs_cache (refresh ex_hash ex_sources ex_fs ex_cache ''2026-01-02T00:00:00Z'') ''a.txt'' =
     Some \<lparr> source_type = ''file'', content_hash = ''H(hello!)'', summary_text = ''summary'',
            last_indexed_at = ''2026-01-01T00:00:00Z'', summary_pending = True,
            file' = Some \<lparr> rel_path = ''a.txt'', size_bytes = 6, mtime_ns = 200 \<rparr> \<rparr>"
    by (simp add: refresh_eval ex_defs)
  have h: "content_hash \<lparr> source_type = ''file'', content_hash = ''H(hello!)'',
            summary_text = ''summary'', last_indexed_at = ''2026-01-01T00:00:00Z'',
            summary_pending = True,
            file' = Some \<lparr> rel_path = ''a.txt'', size_bytes = 6, mtime_ns = 200 \<rparr> \<rparr>
        \<noteq> content_hash (ex_record ''a.txt'' ''hello'' 5 100)"
    by (simp add: ex_defs)
  have p: "pw_cache (ex_world \<lparr> pw_cache := ex_cache_pending \<rparr>) ''b.txt'' =
      Some ((ex_record ''b.txt'' ''world'' 5 100) \<lparr> summary_pending := True \<rparr>)"
    and q: "summary_pending ((ex_record ''b.txt'' ''world'' 5 100) \<lparr> summary_pending := True \<rparr>)"
    by (simp_all add: ex_world_def ex_cache_pending_def)
  note t = summary_pending_never_cleared [of ex_format ex_hash ex_sources ex_fs "''a.txt''"
      "''2026-01-02T00:00:00Z''" _ ex_cache "''a.txt''" "ex_record ''a.txt'' ''hello'' 5 100"]
  note t2 = summary_pending_never_cleared [of ex_format ex_hash _ _ _ _ _ _ "''b.txt''"
      "(ex_record ''b.txt'' ''world'' 5 100) \<lparr> summary_pending := True \<rparr>" _
      "ex_world \<lparr> pw_cache := ex_cache_pending \<rparr>" "[''kb'']" ex_calls]
  from t i c r h p q t2 show ?thesis by blast
qed

text \<open>
  Claim C8, first as stated: \<^verbatim>\<open>last_indexed_at\<close> would be updated whenever
  \<^verbatim>\<open>refresh\<close> examines a record. Here \<^verbatim>\<open>refresh\<close>, called at a later time, stats,
  reads and hashes \<^verbatim>\<open>a.txt\<close> and stores the new hash, and the timestamp of the record
  is still the earlier one.
\<close>

theorem refresh_examined_record_keeps_timestamp_counterexample:
  "HashTextCall ''a.txt'' \<in>
       set (rs_trace (refresh ex_hash ex_sources ex_fs ex_cache ''2026-01-02T00:00:00Z''))
   \<and> map_option last_indexed_at
        (rs_cache (refresh ex_hash ex_sources ex_fs ex_cache ''2026-01-02T00:00:00Z'') ''a.txt'')
       = Some ''2026-01-01T00:00:00Z''
   \<and> ''2026-01-01T00:00:00Z'' \<noteq> ex_format ''2026-01-02T00:00:00Z''"
  by (simp add: refresh_eval ex_defs ex_format_def)

text \<open>
  Claim C8, amended. \<^verbatim>\<open>init_record\<close> sets \<^verbatim>\<open>last_indexed_at\<close> to the formatted
  time of the call that creates the record. No provider operation changes it afterwards:
  \<^verbatim>\<open>refresh\<close> leaves the timestamp of every record as it was, also of the records it
  examines or updates, so it never regresses.
\<close>

theorem last_indexed_at_set_once:
  "(init_record format_rfc3339 hash_text file_sources fs source_id now = Some r0
      \<longrightarrow> last_indexed_at r0 = format_rfc3339 now)
   \<and> (cache k = Some r
        \<longrightarrow> (\<exists>r'. rs_cache (refresh hash_text file_sources fs cache now) k = Some r'
                 \<and> last_indexed_at r' = last_indexed_at r))
   \<and> (pw_cache w k = Some r
        \<longrightarrow> (\<exists>r'. pw_cache (run_calls format_rfc3339 hash_text sources_dir w calls) k = Some r'
                 \<and> last_indexed_at r' = last_indexed_at r))"
proof -
  have "last_indexed_at r0 = format_rfc3339 now"
    if "init_record format_rfc3339 hash_text file_sources fs source_id now = Some r0"
    using that
    by (auto simp: init_record_def split: option.splits read_result.splits)
  moreover have "\<exists>r'. rs_cache (refresh hash_text file_sources fs cache now) k = Some r'
      \<and> last_indexed_at r' = last_indexed_at r"
    if "cache k = Some r"
    using cache_kept_Some [OF refresh_kept [of cache hash_text file_sources fs now] that]
    by (auto simp: record_kept_def)
  moreover have "\<exists>r'. pw_cache (run_calls format_rfc3339 hash_text sources_dir w calls) k = Some r'
      \<and> last_indexed_at r' = last_indexed_at r"
    if "pw_cache w k = Some r"
    using cache_kept_Some
        [OF run_calls_kept [of w format_rfc3339 hash_text sources_dir calls] that]
    by (auto simp: record_kept_def)
  ultimately show ?thesis by blast
qed

theorem last_indexed_at_set_once_witness:
  "last_indexed_at \<lparr> source_type = ''file'', content_hash = ex_hash ''hello!'', summary_text = '''',
            last_indexed_at = ex_format ''2026-01-02T00:00:00Z'', summary_pending = True,
            file' = Some \<lparr> rel_path = ''a.txt'', size_bytes = 6, mtime_ns = 200 \<rparr> \<rparr>
     = ex_format ''2026-01-02T00:00:00Z''
   \<and> (\<exists>r'. rs_cache (refresh ex_hash ex_sources ex_fs ex_cache ''2026-01-02T00:00:00Z'') ''a.txt''
              = Some r' \<and> last_indexed_at r' = ''2026-01-01T00:00:00Z'')
   \<and> (\<exists>r'. pw_cache (run_calls ex_format ex_hash [''kb''] ex_world ex_calls) ''a.txt'' = Some r'
              \<and> last_indexed_at r' = ''2026-01-01T00:00:00Z'')"
proof -
  have i: "init_record ex_format ex_hash ex_sources ex_fs ''a.txt'' ''2026-01-02T00:00:00Z'' =
     Some \<lparr> source_type = ''file'', content_hash = ex_hash ''hello!'', summary_text = '''',
            last_indexed_at = ex_format ''2026-01-02T00:00:00Z'', summary_pending = True,
            file' = Some \<lparr> rel_path = ''a.txt'', size_bytes = 6, mtime_ns = 200 \<rparr> \<rparr>"
    by (simp add: init_record_def ex_defs)
  have c: "ex_cache ''a.txt'' = Some (ex_record ''a.txt'' ''hello'' 5 100)"
    and p: "pw_cache ex_world ''a.txt'' = Some (ex_record ''a.txt'' ''hello'' 5 100)"
    and l: "last_indexed_at (ex_record ''a.txt'' ''hello'' 5 100) = ''2026-01-01T00:00:00Z''"
    by (simp_all add: ex_defs ex_world_def)
  note t = last_indexed_at_set_once [of ex_format ex_hash ex_sources ex_fs "''a.txt''"
      "''2026-01-02T00:00:00Z''" _ ex_cache "''a.txt''" "ex_record ''a.txt'' ''hello'' 5 100"
      ex_world "[''kb'']" ex_calls]
  from t i c p show ?thesis unfolding l by blast
qed




text \<open>
  Claim C10. For a record of type \<^verbatim>\<open>"file"\<close> without file metadata the comparison
  fingerprint is the stat itself, so it matches: \<^verbatim>\<open>refresh\<close> leaves the record as it is
  (the metadata stays absent), makes no \<^verbatim>\<open>read_text\<close> and no \<^verbatim>\<open>hash_text\<close> call for
  it, and returns what it returns without that source.
\<close>

theorem refresh_absent_metadata_skips:
  assumes "distinct (map fst file_sources)" and "(rp, file_path) \<in> set file_sources"
    and "cache rp = Some record" and "source_type record = ''file''"
    and "file' record = None"
  shows "(\<forall>stat. size_bytes (comparison_meta rp record stat) = st_size stat
                \<and> mtime_ns (comparison_meta rp record stat) = st_mtime_ns stat)
       \<and> rs_cache (refresh hash_text file_sources fs cache now) rp = Some record
       \<and> ReadTextCall rp \<notin> set (rs_trace (refresh hash_text file_sources fs cache now))
       \<and> HashTextCall rp \<notin> set (rs_trace (refresh hash_text file_sources fs cache now))
       \<and> rs_changed (refresh hash_text file_sources fs cache now) =
           rs_changed (refresh hash_text (AList.delete rp file_sources) fs cache now)"
proof -
  have meta: "size_bytes (comparison_meta rp record stat) = st_size stat
            \<and> mtime_ns (comparison_meta rp record stat) = st_mtime_ns stat" for stat
    using assms(5) by (simp add: comparison_meta_None)
  have step: "refresh_entry hash_text fs (rp, file_path) s = log_call (StatCall rp) s"
    if "rs_cache s rp = cache rp" for s
  proof (cases "fs_stat fs file_path")
    case None
    then show ?thesis
      using that assms(3,4) by (intro refresh_entry_no_stat [where r = "record"]) simp_all
  next
    case (Some stat)
    then show ?thesis
      using that assms(3,4) meta [of stat]
      by (intro refresh_entry_match [where r = "record" and st = stat]) simp_all
  qed
  from refresh_at_key [OF assms(1,2), of cache hash_text fs now] obtain s1
    where c1: "rs_cache s1 rp = cache rp"
      and t1: "\<forall>e \<in> set (rs_trace s1). event_source e \<noteq> rp"
      and c2: "rs_cache (refresh hash_text file_sources fs cache now) rp =
               rs_cache (refresh_entry hash_text fs (rp, file_path) s1) rp"
      and t2: "\<forall>e \<in> set (rs_trace (refresh hash_text file_sources fs cache now)).
                 event_source e = rp \<longrightarrow>
                 e \<in> set (rs_trace (refresh_entry hash_text fs (rp, file_path) s1))"
    by blast
  have "rs_cache (refresh hash_text file_sources fs cache now) rp = Some record"
    using c2 c1 assms(3) by (simp add: step [OF c1] log_call_def)
  moreover have "ReadTextCall rp \<notin> set (rs_trace (refresh hash_text file_sources fs cache now))"
    using t2 t1 by (fastforce simp: step [OF c1] log_call_def)
  moreover have "HashTextCall rp \<notin> set (rs_trace (refresh hash_text file_sources fs cache now))"
    using t2 t1 by (fastforce simp: step [OF c1] log_call_def)
  moreover have "rs_changed (refresh hash_text file_sources fs cache now) =
      rs_changed (refresh hash_text (AList.delete rp file_sources) fs cache now)"
    using refresh_skip_key [OF assms(1,2), of cache hash_text fs now] step
    by (simp add: log_call_def)
  ultimately show ?thesis using meta by simp
qed

theorem refresh_absent_metadata_skips_witness:
  "(\<forall>stat. size_bytes (comparison_meta ''a.txt'' ((ex_record ''a.txt'' ''hello'' 5 100) \<lparr> file' := None \<rparr>) stat) = st_size stat
                \<and> mtime_ns (comparison_meta ''a.txt'' ((ex_record ''a.txt'' ''hello'' 5 100) \<lparr> file' := None \<rparr>) stat) = st_mtime_ns stat)
   \<and> rs_cache (refresh ex_hash ex_sources ex_fs ex_cache_no_meta ''2026-01-02T00:00:00Z'') ''a.txt''
       = Some ((ex_record ''a.txt'' ''hello'' 5 100) \<lparr> file' := None \<rparr>)
   \<and> ReadTextCall ''a.txt'' \<notin>
        set (rs_trace (refresh ex_hash ex_sources ex_fs ex_cache_no_meta ''2026-01-02T00:00:00Z''))
   \<and> HashTextCall ''a.txt'' \<notin>
        set (rs_trace (refresh ex_hash ex_sources ex_fs ex_cache_no_meta ''2026-01-02T00:00:00Z''))
   \<and> rs_changed (refresh ex_hash ex_sources ex_fs ex_cache_no_meta ''2026-01-02T00:00:00Z'') =
       rs_changed (refresh ex_hash (AList.delete ''a.txt'' ex_sources) ex_fs ex_cache_no_meta
                     ''2026-01-02T00:00:00Z'')"
proof -
  have "distinct (map fst ex_sources)"
    and "(''a.txt'', [''kb'', ''a.txt'']) \<in> set ex_sources"
    and "ex_cache_no_meta ''a.txt'' = Some ((ex_record ''a.txt'' ''hello'' 5 100) \<lparr> file' := None \<rparr>)"
    and "source_type ((ex_record ''a.txt'' ''hello'' 5 100) \<lparr> file' := None \<rparr>) = ''file''"
    and "file' ((ex_record ''a.txt'' ''hello'' 5 100) \<lparr> file' := None \<rparr>) = None"
    by (simp_all add: ex_defs)
  then show ?thesis
    by (rule refresh_absent_metadata_skips)
qed

end
